theory Spec2Isabelle
  imports Complex_Main
begin

section \<open>Python values, dictionaries and object store\<close>

text \<open>
  The program is \<^verbatim>\<open>ms.py\<close>: class \<^verbatim>\<open>ExchangeLatencyTester\<close> and \<^verbatim>\<open>main\<close>.
  A Python float is an IEEE double: a finite value, given exactly as the rational
  number it is, or one of the three special values. The negative zero is not
  represented.
\<close>

datatype pyfloat = Finite rat | PosInf | NegInf | NaN

datatype pyval = PStr string | PFloat pyfloat | PInt int | PBool bool | PNone

text \<open>
  A \<^verbatim>\<open>dict\<close> with string keys, in insertion order. Python keeps the keys of a dict
  distinct; \<open>dict_set\<close> is \<^verbatim>\<open>d[k] = v\<close>: an existing key keeps its position.
\<close>

type_synonym pydict = "(string \<times> pyval) list"

definition dict_set :: "(string \<times> 'v) list \<Rightarrow> string \<Rightarrow> 'v \<Rightarrow> (string \<times> 'v) list" where
  "dict_set d k v =
     (if k \<in> set (map fst d) then map (\<lambda>(k', v'). if k' = k then (k', v) else (k', v')) d
      else d @ [(k, v)])"

text \<open>
  The result dictionaries are mutable objects that are shared by reference, so they live
  in a store: an address is an index into the list of allocated objects.
\<close>

definition alloc :: "pydict list \<Rightarrow> pydict \<Rightarrow> pydict list \<times> nat" where
  "alloc h d = (h @ [d], length h)"

text \<open>What \<^verbatim>\<open>json.dump\<close> is handed: a tree of dictionaries over plain values.\<close>

datatype pyobj = Val pyval | Dict "(string \<times> pyobj) list"

datatype exn =
    KeyError string
  | ValueError string
  | TypeError string
  | OSError string
  | RequestException string
  | OverflowError string
  | KeyboardInterrupt

text \<open>
  \<^verbatim>\<open>except Exception\<close> catches every class above but \<^verbatim>\<open>KeyboardInterrupt\<close>, which
  derives from \<^verbatim>\<open>BaseException\<close>.
\<close>

fun is_Exception :: "exn \<Rightarrow> bool" where
  "is_Exception KeyboardInterrupt = False"
| "is_Exception _ = True"

text \<open>
  \<^verbatim>\<open>str(e)\<close>. For a \<^verbatim>\<open>KeyError\<close> it is the \<^verbatim>\<open>repr\<close> of the key, written here for keys
  without quotes or escapes; the other constructors carry their message.
\<close>

definition quoted :: "string \<Rightarrow> string" where
  "quoted s = [CHR 0x27] @ s @ [CHR 0x27]"

fun exn_str :: "exn \<Rightarrow> string" where
  "exn_str (KeyError k) = quoted k"
| "exn_str (ValueError m) = m"
| "exn_str (TypeError m) = m"
| "exn_str (OSError m) = m"
| "exn_str (RequestException m) = m"
| "exn_str (OverflowError m) = m"
| "exn_str KeyboardInterrupt = []"

datatype level = INFO | WARNING | ERROR

text \<open>
  Everything the program does to the outside, in order: a \<^verbatim>\<open>logger\<close> call, a
  \<^verbatim>\<open>print\<close>, the \<^verbatim>\<open>requests.get\<close> (url, headers, timeout), \<^verbatim>\<open>time.sleep\<close>, the
  \<^verbatim>\<open>open(filename, 'w')\<close>, the \<^verbatim>\<open>json.dump\<close> (object, indent) and
  \<^verbatim>\<open>traceback.print_exc\<close>.
\<close>

datatype event =
    Log level string
  | Print string
  | HttpGet string "(string \<times> string) list" nat
  | Sleep nat
  | Open string
  | JsonDump pyobj nat
  | PrintExc

section \<open>Floating-point arithmetic\<close>

text \<open>\<open>ilog2 n\<close> is the position of the leading bit of \<open>n\<close>.\<close>

fun ilog2 :: "nat \<Rightarrow> nat" where
  "ilog2 n = (if n < 2 then 0 else Suc (ilog2 (n div 2)))"

declare ilog2.simps [simp del]

definition pow2 :: "int \<Rightarrow> rat" where
  "pow2 e = 2 powi e"

text \<open>The binary exponent of a positive number: \<open>pow2 (expo q) \<le> q < pow2 (expo q + 1)\<close>.\<close>

definition expo :: "rat \<Rightarrow> int" where
  "expo q = (if 1 \<le> q then int (ilog2 (nat \<lfloor>q\<rfloor>))
             else - int (Suc (ilog2 (nat \<lceil>1 / q\<rceil> - 1))))"

definition round_half_even :: "rat \<Rightarrow> int" where
  "round_half_even q =
     (let f = \<lfloor>q\<rfloor>; d = q - of_int f
      in if d < 1 / 2 then f else if 1 / 2 < d then f + 1 else if even f then f else f + 1)"

text \<open>
  The double nearest to a number, ties to even: 53 bits at the exponent of the number,
  the exponent not below \<open>-1022\<close> (below it the doubles are subnormal), and the
  infinity when the rounded value reaches \<open>pow2 1024\<close>.
\<close>

definition round_double :: "rat \<Rightarrow> pyfloat" where
  "round_double q =
     (if q = 0 then Finite 0
      else
        (let e = max (expo \<bar>q\<bar>) (- 1022);
             u = pow2 (e - 52);
             r = of_int (round_half_even (\<bar>q\<bar> / u)) * u
         in if pow2 1024 \<le> r then (if q < 0 then NegInf else PosInf)
            else Finite (if q < 0 then - r else r)))"

text \<open>The operators \<^verbatim>\<open>-\<close> and \<^verbatim>\<open>*\<close> on floats.\<close>

fun float_sub :: "pyfloat \<Rightarrow> pyfloat \<Rightarrow> pyfloat" where
  "float_sub (Finite a) (Finite b) = round_double (a - b)"
| "float_sub NaN y = NaN"
| "float_sub x NaN = NaN"
| "float_sub PosInf PosInf = NaN"
| "float_sub NegInf NegInf = NaN"
| "float_sub PosInf y = PosInf"
| "float_sub NegInf y = NegInf"
| "float_sub (Finite a) PosInf = NegInf"
| "float_sub (Finite a) NegInf = PosInf"

fun float_sign :: "pyfloat \<Rightarrow> int" where
  "float_sign (Finite a) = (if a < 0 then - 1 else if a = 0 then 0 else 1)"
| "float_sign PosInf = 1"
| "float_sign NegInf = - 1"
| "float_sign NaN = 0"

fun float_mul :: "pyfloat \<Rightarrow> pyfloat \<Rightarrow> pyfloat" where
  "float_mul (Finite a) (Finite b) = round_double (a * b)"
| "float_mul x y =
     (if float_sign x * float_sign y = 0 then NaN
      else if 0 < float_sign x * float_sign y then PosInf else NegInf)"

declare float_sub.simps [simp del]

declare float_mul.simps [simp del]

section \<open>String formatting\<close>

definition upper_char :: "char \<Rightarrow> char" where
  "upper_char c =
     (case map_of (zip ''abcdefghijklmnopqrstuvwxyz'' ''ABCDEFGHIJKLMNOPQRSTUVWXYZ'') c of
        Some u \<Rightarrow> u
      | None \<Rightarrow> c)"

text \<open>\<^verbatim>\<open>str.upper\<close> on ASCII text.\<close>

definition upper :: "string \<Rightarrow> string" where
  "upper s = map upper_char s"

definition digit_char :: "nat \<Rightarrow> char" where
  "digit_char n = ''0123456789'' ! (n mod 10)"

fun str_nat :: "nat \<Rightarrow> string" where
  "str_nat n = (if n < 10 then [digit_char n] else str_nat (n div 10) @ [digit_char n])"

declare str_nat.simps [simp del]

text \<open>\<^verbatim>\<open>str\<close> of an \<^verbatim>\<open>int\<close>.\<close>

definition str_int :: "int \<Rightarrow> string" where
  "str_int i = (if i < 0 then ''-'' @ str_nat (nat (- i)) else str_nat (nat i))"

text \<open>
  The format specification \<^verbatim>\<open>.2f\<close> on a finite number: the exact value rounded to two
  decimals, ties to even, then sign, integer digits, a point and two digits.
\<close>

definition format_2f_rat :: "rat \<Rightarrow> string" where
  "format_2f_rat q =
     (let n = nat (round_half_even (\<bar>q\<bar> * 100))
      in (if q < 0 then ''-'' else []) @ str_nat (n div 100) @ ''.''
           @ [digit_char (n div 10), digit_char n])"

fun format_2f_float :: "pyfloat \<Rightarrow> string" where
  "format_2f_float (Finite q) = format_2f_rat q"
| "format_2f_float PosInf = ''inf''"
| "format_2f_float NegInf = ''-inf''"
| "format_2f_float NaN = ''nan''"

text \<open>
  \<^verbatim>\<open>f"{v:.2f}"\<close> on any value: a float formats, an \<^verbatim>\<open>int\<close> or \<^verbatim>\<open>bool\<close> is converted to
  a float first (and raises when it is too large), a string and \<^verbatim>\<open>None\<close> raise.
\<close>

fun format_2f :: "pyval \<Rightarrow> exn + string" where
  "format_2f (PFloat f) = Inr (format_2f_float f)"
| "format_2f (PInt i) =
     (case round_double (of_int i) of
        Finite q \<Rightarrow> Inr (format_2f_rat q)
      | _ \<Rightarrow> Inl (OverflowError ''int too large to convert to float''))"
| "format_2f (PBool b) = Inr (format_2f_rat (if b then 1 else 0))"
| "format_2f (PStr s) = Inl (ValueError (''Unknown format code '' @ quoted ''f'' @ '' for object of type '' @ quoted ''str''))"
| "format_2f PNone = Inl (TypeError ''unsupported format string passed to NoneType.__format__'')"

text \<open>\<open>ilog10 n\<close> is the number of decimal digits of \<open>n\<close> less one.\<close>

fun ilog10 :: "nat \<Rightarrow> nat" where
  "ilog10 n = (if n < 10 then 0 else Suc (ilog10 (n div 10)))"

declare ilog10.simps [simp del]

definition pow10 :: "int \<Rightarrow> rat" where
  "pow10 e = 10 powi e"

definition dexpo :: "rat \<Rightarrow> int" where
  "dexpo q = (if 1 \<le> q then int (ilog10 (nat \<lfloor>q\<rfloor>))
              else - int (Suc (ilog10 (nat \<lceil>1 / q\<rceil> - 1))))"

text \<open>
  The shortest decimal that reads back as the double \<open>x\<close>: with \<open>n\<close> digits the two
  neighbours of \<open>x\<close> are tried, the nearer first; \<open>fuel\<close> counts the lengths left.
  The result is the integer of the digits and the power of ten it is scaled by.
\<close>

fun shortest :: "nat \<Rightarrow> nat \<Rightarrow> rat \<Rightarrow> int \<times> int" where
  "shortest 0 n x = (0, 0)"
| "shortest (Suc fuel) n x =
     (let s = dexpo x - int n + 1;
          y = x / pow10 s;
          lo = \<lfloor>y\<rfloor>;
          hi = lo + 1;
          lo_ok = (round_double (of_int lo * pow10 s) = Finite x);
          hi_ok = (round_double (of_int hi * pow10 s) = Finite x)
      in if lo_ok \<and> (\<not> hi_ok \<or> y - of_int lo \<le> of_int hi - y) then (lo, s)
         else if hi_ok then (hi, s)
         else shortest fuel (Suc n) x)"

fun strip_zeros :: "string \<Rightarrow> string" where
  "strip_zeros s = rev (dropWhile (\<lambda>c. c = CHR ''0'') (rev s))"

text \<open>
  \<^verbatim>\<open>repr\<close> of a positive double: the digits \<open>ds\<close> and the position \<open>decpt\<close> of the point
  (the value is \<open>0.ds\<close> times ten to the \<open>decpt\<close>), in exponent form when \<open>decpt\<close> is
  below \<open>-3\<close> or above 16.
\<close>

definition repr_pos :: "rat \<Rightarrow> string" where
  "repr_pos x =
     (let (m, s) = shortest 17 1 x;
          all = str_nat (nat m);
          ds = strip_zeros all;
          decpt = int (length all) + s;
          n = int (length ds)
      in if decpt \<le> - 4 \<or> 16 < decpt then
           hd ds # (if 1 < n then ''.'' @ tl ds else [])
             @ ''e'' @ (if decpt - 1 < 0 then ''-'' else ''+'')
             @ (if \<bar>decpt - 1\<bar> < 10 then ''0'' else []) @ str_nat (nat \<bar>decpt - 1\<bar>)
         else if decpt \<le> 0 then ''0.'' @ replicate (nat (- decpt)) (CHR ''0'') @ ds
         else if n \<le> decpt then ds @ replicate (nat (decpt - n)) (CHR ''0'') @ ''.0''
         else take (nat decpt) ds @ ''.'' @ drop (nat decpt) ds)"

definition float_repr :: "rat \<Rightarrow> string" where
  "float_repr q =
     (if q = 0 then ''0.0'' else if q < 0 then ''-'' @ repr_pos (- q) else repr_pos q)"

text \<open>\<^verbatim>\<open>f"{v}"\<close>, that is \<^verbatim>\<open>str(v)\<close>.\<close>

fun py_str :: "pyval \<Rightarrow> exn + string" where
  "py_str (PStr s) = Inr s"
| "py_str (PInt i) = Inr (str_int i)"
| "py_str (PBool b) = Inr (if b then ''True'' else ''False'')"
| "py_str PNone = Inr ''None''"
| "py_str (PFloat PosInf) = Inr ''inf''"
| "py_str (PFloat NegInf) = Inr ''-inf''"
| "py_str (PFloat NaN) = Inr ''nan''"
| "py_str (PFloat (Finite q)) = Inr (float_repr q)"

text \<open>The truth value of an object in \<^verbatim>\<open>if v:\<close>.\<close>

fun truthy :: "pyval \<Rightarrow> bool" where
  "truthy (PBool b) = b"
| "truthy (PInt i) = (i \<noteq> 0)"
| "truthy (PFloat f) = (f \<noteq> Finite 0)"
| "truthy (PStr s) = (s \<noteq> [])"
| "truthy PNone = False"

text \<open>\<^verbatim>\<open>d[k]\<close>: a missing key raises \<^verbatim>\<open>KeyError\<close>.\<close>

definition subscript :: "pydict \<Rightarrow> string \<Rightarrow> exn + pyval" where
  "subscript d k = (case map_of d k of None \<Rightarrow> Inl (KeyError k) | Some v \<Rightarrow> Inr v)"

section \<open>The tester\<close>

text \<open>\<^verbatim>\<open>self.endpoints\<close> and \<^verbatim>\<open>self.headers\<close>, set once in \<^verbatim>\<open>__init__\<close>.\<close>

definition endpoints :: "(string \<times> string) list" where
  "endpoints =
     [(''binance'', ''https://api.binance.com/api/v3/time''),
      (''bybit'', ''https://api.bybit.com/v5/market/time''),
      (''gateio'', ''https://api.gateio.ws/api/v4/spot/time'')]"

definition headers :: "(string \<times> string) list" where
  "headers =
     [(''User-Agent'', ''Mozilla/5.0 (Windows NT 10.0; Win64; x64) AppleWebKit/537.36''),
      (''Accept'', ''application/json'')]"

text \<open>
  The tester object: \<^verbatim>\<open>self.results\<close> maps an exchange to the address of its result
  dictionary; \<open>store\<close> holds the dictionaries allocated so far.
\<close>

record tester =
  store :: "pydict list"
  results :: "(string \<times> nat) list"

definition init_tester :: tester where
  "init_tester = \<lparr>store = [], results = []\<rparr>"

text \<open>
  What the world answers to one probe: the two readings of \<^verbatim>\<open>time.perf_counter\<close>
  (finite doubles, each given as the rational number it is), what
  \<^verbatim>\<open>requests.get\<close> does (a response with its status code, or an exception), and
  whether the \<^verbatim>\<open>time.sleep(1)\<close> that follows is cut short by an exception.
\<close>

datatype http_reply = Response int | Raises exn

record probe_env =
  t_start :: rat
  t_end :: rat
  reply :: http_reply
  sleep_raises :: "exn option"

text \<open>
  \<^verbatim>\<open>test_rest_latency\<close>: the events and either the exception that leaves the method or
  the dictionary it returns.
\<close>

definition test_rest_latency :: "probe_env \<Rightarrow> string \<Rightarrow> event list \<times> (exn + pydict)" where
  "test_rest_latency env exchange =
     (case map_of endpoints exchange of
        None \<Rightarrow> ([], Inl (KeyError exchange))
      | Some endpoint \<Rightarrow>
          (let ev0 = [Log INFO (''Testing REST latency for '' @ upper exchange),
                      HttpGet endpoint headers 10]
           in case reply env of
                Response status_code \<Rightarrow>
                  if status_code = 200 then
                    (let latency = float_mul (float_sub (Finite (t_end env))
                                                        (Finite (t_start env)))
                                             (Finite 1000)
                     in (ev0 @ [Log INFO (''Request: '' @ format_2f_float latency
                                  @ '' ms (Status: '' @ str_int status_code @ '')'')],
                         Inr [(''exchange'', PStr exchange),
                              (''test_type'', PStr ''rest''),
                              (''latency'', PFloat latency),
                              (''status_code'', PInt status_code),
                              (''success'', PBool True)]))
                  else
                    (ev0 @ [Log WARNING (''Request failed with status code ''
                                  @ str_int status_code)],
                     Inr [(''exchange'', PStr exchange),
                          (''test_type'', PStr ''rest''),
                          (''latency'', PFloat PosInf),
                          (''status_code'', PInt status_code),
                          (''success'', PBool False)])
              | Raises (RequestException msg) \<Rightarrow>
                  (ev0 @ [Log ERROR (''Request error: '' @ msg)],
                   Inr [(''exchange'', PStr exchange),
                        (''test_type'', PStr ''rest''),
                        (''latency'', PFloat PosInf),
                        (''status_code'', PNone),
                        (''success'', PBool False),
                        (''error'', PStr msg)])
              | Raises e \<Rightarrow> (ev0, Inl e)))"

text \<open>
  The loop of \<^verbatim>\<open>run_tests\<close> over the exchanges left, with the store and the local
  dictionary \<^verbatim>\<open>results\<close>. An exception leaves the loop at once.
\<close>

fun run_loop ::
  "(string \<Rightarrow> probe_env) \<Rightarrow> string list \<Rightarrow> pydict list \<Rightarrow> (string \<times> nat) list
     \<Rightarrow> event list \<times> pydict list \<times> (exn + (string \<times> nat) list)" where
  "run_loop penv [] h res = ([], h, Inr res)"
| "run_loop penv (exchange # rest) h res =
     (let ev1 = [Log INFO (CHR 0x0A # replicate 50 (CHR ''='')),
                 Log INFO (''Testing '' @ upper exchange),
                 Log INFO (replicate 50 (CHR ''=''))]
      in case test_rest_latency (penv exchange) exchange of
           (ev2, Inl e) \<Rightarrow> (ev1 @ ev2, h, Inl e)
         | (ev2, Inr result) \<Rightarrow>
             (let (h', a) = alloc h result;
                  res' = dict_set res exchange a
              in case sleep_raises (penv exchange) of
                   Some e \<Rightarrow> (ev1 @ ev2 @ [Sleep 1], h', Inl e)
                 | None \<Rightarrow>
                     (case run_loop penv rest h' res' of
                        (ev3, h'', r) \<Rightarrow> (ev1 @ ev2 @ [Sleep 1] @ ev3, h'', r))))"

text \<open>
  \<^verbatim>\<open>run_tests\<close>: \<^verbatim>\<open>self.results\<close> is assigned only after the loop, so an exception
  leaves it as it was.
\<close>

definition run_tests ::
  "(string \<Rightarrow> probe_env) \<Rightarrow> tester
     \<Rightarrow> event list \<times> tester \<times> (exn + (string \<times> nat) list)" where
  "run_tests penv self =
     (case run_loop penv [''binance'', ''bybit'', ''gateio''] (store self) [] of
        (evs, h, Inl e) \<Rightarrow>
          (Log INFO ''Starting latency tests...'' # evs, self\<lparr>store := h\<rparr>, Inl e)
      | (evs, h, Inr res) \<Rightarrow>
          (Log INFO ''Starting latency tests...'' # evs,
           self\<lparr>store := h, results := res\<rparr>, Inr res))"

section \<open>Output with exceptions\<close>

text \<open>
  A computation that prints and may raise: the events it produced, and the exception or
  the value. \<open>bind_io\<close> is sequencing; an exception skips what follows.
\<close>

type_synonym 'a io = "event list \<times> (exn + 'a)"

definition bind_io :: "'a io \<Rightarrow> ('a \<Rightarrow> 'b io) \<Rightarrow> 'b io" where
  "bind_io m f =
     (case m of
        (ev, Inl e) \<Rightarrow> (ev, Inl e)
      | (ev, Inr x) \<Rightarrow> (case f x of (ev', r) \<Rightarrow> (ev @ ev', r)))"

definition emit :: "event \<Rightarrow> unit io" where
  "emit ev = ([ev], Inr ())"

definition lift :: "exn + 'a \<Rightarrow> 'a io" where
  "lift r = ([], r)"

section \<open>The reporter\<close>

text \<open>The body of the loop of \<^verbatim>\<open>print_results\<close> for one item of \<^verbatim>\<open>self.results\<close>.\<close>

definition print_block :: "string \<Rightarrow> pydict \<Rightarrow> unit io" where
  "print_block exchange result =
     bind_io (emit (Print (CHR 0x0A # upper exchange @ '' Results:''))) (\<lambda>_.
     bind_io (lift (subscript result ''success'')) (\<lambda>success.
       if truthy success then
         bind_io (lift (subscript result ''latency'')) (\<lambda>latency.
         bind_io (lift (format_2f latency)) (\<lambda>l.
         bind_io (emit (Print (''  Latency: '' @ l @ '' ms''))) (\<lambda>_.
         bind_io (lift (subscript result ''status_code'')) (\<lambda>status_code.
         bind_io (lift (py_str status_code)) (\<lambda>s.
         emit (Print (''  Status Code: '' @ s)))))))
       else
         bind_io (emit (Print ''  Request failed'')) (\<lambda>_.
         bind_io (if ''error'' \<in> set (map fst result)
                  then bind_io (lift (subscript result ''error'')) (\<lambda>error.
                       bind_io (lift (py_str error)) (\<lambda>s.
                       emit (Print (''  Error: '' @ s))))
                  else ([], Inr ())) (\<lambda>_.
         bind_io (lift (py_str (case map_of result ''status_code'' of
                                  None \<Rightarrow> PStr ''N/A''
                                | Some v \<Rightarrow> v))) (\<lambda>s.
         emit (Print (''  Status Code: '' @ s)))))))"

fun print_loop :: "pydict list \<Rightarrow> (string \<times> nat) list \<Rightarrow> unit io" where
  "print_loop h [] = ([], Inr ())"
| "print_loop h ((exchange, a) # rest) =
     bind_io (print_block exchange (h ! a)) (\<lambda>_. print_loop h rest)"

definition print_results :: "tester \<Rightarrow> unit io" where
  "print_results self =
     (if results self = [] then
        ([Log WARNING ''No results to display. Run tests first.''], Inr ())
      else
        bind_io ([Print (CHR 0x0A # replicate 80 (CHR ''='')),
                  Print ''LATENCY TEST RESULTS SUMMARY'',
                  Print (replicate 80 (CHR ''=''))], Inr ()) (\<lambda>_.
        print_loop (store self) (results self)))"

section \<open>The persister\<close>

text \<open>
  The loop that fills \<^verbatim>\<open>serializable_results\<close>: \<^verbatim>\<open>result.copy()\<close> allocates a new
  dictionary with the same items, the assignment to its \<^verbatim>\<open>'latency'\<close> writes to the
  new address, and the new address is stored under the key.
\<close>

fun serialize_loop ::
  "pydict list \<Rightarrow> (string \<times> nat) list \<Rightarrow> (string \<times> nat) list
     \<Rightarrow> pydict list \<times> (string \<times> nat) list" where
  "serialize_loop h [] ser = (h, ser)"
| "serialize_loop h ((key, result) # rest) ser =
     (let (h1, serializable_result) = alloc h (h ! result);
          h2 = (if ''latency'' \<in> set (map fst (h1 ! serializable_result))
                   \<and> map_of (h1 ! serializable_result) ''latency'' = Some (PFloat PosInf)
                then h1[serializable_result :=
                          dict_set (h1 ! serializable_result) ''latency'' (PStr ''inf'')]
                else h1)
      in serialize_loop h2 rest (dict_set ser key serializable_result))"

text \<open>The object \<^verbatim>\<open>json.dump\<close> walks: each address is followed into the store.\<close>

definition snapshot :: "pydict list \<Rightarrow> (string \<times> nat) list \<Rightarrow> pyobj" where
  "snapshot h d = Dict (map (\<lambda>(k, a). (k, Dict (map (\<lambda>(f, v). (f, Val v)) (h ! a)))) d)"

text \<open>
  What the world does at a save: the two renderings of \<^verbatim>\<open>datetime.now()\<close>, and whether
  \<^verbatim>\<open>open\<close> or \<^verbatim>\<open>json.dump\<close> raise.
\<close>

record save_env =
  now_stamp :: string
  now_iso :: string
  open_raises :: "exn option"
  dump_raises :: "exn option"

text \<open>The handler \<^verbatim>\<open>except Exception as e\<close> of the save.\<close>

definition save_handler :: "exn \<Rightarrow> unit io" where
  "save_handler e =
     (if is_Exception e then ([Log ERROR (''Failed to save results: '' @ exn_str e)], Inr ())
      else ([], Inl e))"

definition save_results_to_file ::
  "save_env \<Rightarrow> string option \<Rightarrow> tester \<Rightarrow> event list \<times> tester \<times> (exn + unit)" where
  "save_results_to_file env filename self =
     (if results self = [] then ([Log WARNING ''No results to save.''], self, Inr ())
      else
        (let filename = (case filename of
                           None \<Rightarrow> ''latency_test_results_'' @ now_stamp env @ ''.json''
                         | Some f \<Rightarrow> f);
             (h, serializable_results) = serialize_loop (store self) (results self) [];
             self' = self\<lparr>store := h\<rparr>
         in case open_raises env of
              Some e \<Rightarrow> (case save_handler e of (ev, r) \<Rightarrow> (ev, self', r))
            | None \<Rightarrow>
                (case dump_raises env of
                   Some e \<Rightarrow> (case save_handler e of (ev, r) \<Rightarrow> (Open filename # ev, self', r))
                 | None \<Rightarrow>
                     ([Open filename,
                       JsonDump (Dict [(''timestamp'', Val (PStr (now_iso env))),
                                       (''results'', snapshot h serializable_results)]) 2,
                       Log INFO (''Results saved to '' @ filename)],
                      self', Inr ()))))"

section \<open>The driver\<close>

record main_env =
  probes :: "string \<Rightarrow> probe_env"
  saving :: save_env

text \<open>The two handlers of \<^verbatim>\<open>main\<close>, tried in the order of the source.\<close>

definition main_handler :: "exn \<Rightarrow> event list" where
  "main_handler e =
     (if e = KeyboardInterrupt then [Log INFO ''Test interrupted by user'']
      else [Log ERROR (''Test failed with error: '' @ exn_str e), PrintExc])"

text \<open>\<^verbatim>\<open>main\<close> returns in every case; the tester is returned to be looked at.\<close>

definition main :: "main_env \<Rightarrow> event list \<times> tester" where
  "main env =
     (case run_tests (probes env) init_tester of
        (ev1, tester, Inl e) \<Rightarrow> (ev1 @ main_handler e, tester)
      | (ev1, tester, Inr res) \<Rightarrow>
          (case print_results tester of
             (ev2, Inl e) \<Rightarrow> (ev1 @ ev2 @ main_handler e, tester)
           | (ev2, Inr _) \<Rightarrow>
               (case save_results_to_file (saving env) None tester of
                  (ev3, tester', Inl e) \<Rightarrow> (ev1 @ ev2 @ ev3 @ main_handler e, tester')
                | (ev3, tester', Inr _) \<Rightarrow> (ev1 @ ev2 @ ev3, tester'))))"

section \<open>Example worlds\<close>

text \<open>
  The three probes of the scenarios: binance answers 200 after 2777/65536 of a second
  (both readings are doubles, and the latency prints as 42.37 ms), bybit answers 503,
  gateio times out after ten seconds.
\<close>

definition scenario_A :: probe_env where
  "scenario_A = \<lparr>t_start = 1, t_end = 68313 / 65536, reply = Response 200,
                  sleep_raises = None\<rparr>"

definition scenario_B :: probe_env where
  "scenario_B = \<lparr>t_start = 3, t_end = 4, reply = Response 503, sleep_raises = None\<rparr>"

definition scenario_C :: probe_env where
  "scenario_C = \<lparr>t_start = 5, t_end = 15, reply = Raises (RequestException ''timed out''),
                  sleep_raises = None\<rparr>"

definition result_A :: pydict where
  "result_A = [(''exchange'', PStr ''binance''), (''test_type'', PStr ''rest''),
               (''latency'', PFloat (Finite (347125 / 8192))),
               (''status_code'', PInt 200), (''success'', PBool True)]"

definition result_B :: pydict where
  "result_B = [(''exchange'', PStr ''bybit''), (''test_type'', PStr ''rest''),
               (''latency'', PFloat PosInf),
               (''status_code'', PInt 503), (''success'', PBool False)]"

definition result_C :: pydict where
  "result_C = [(''exchange'', PStr ''gateio''), (''test_type'', PStr ''rest''),
               (''latency'', PFloat PosInf), (''status_code'', PNone),
               (''success'', PBool False), (''error'', PStr ''timed out'')]"

text \<open>The full run of scenario D and the tester it leaves.\<close>

definition scenario_D :: "string \<Rightarrow> probe_env" where
  "scenario_D exchange =
     (if exchange = ''binance'' then scenario_A
      else if exchange = ''bybit'' then scenario_B
      else scenario_C)"

definition tester_D :: tester where
  "tester_D = \<lparr>store = [result_A, result_B, result_C],
                results = [(''binance'', 0), (''bybit'', 1), (''gateio'', 2)]\<rparr>"

text \<open>The tester after a save of \<open>tester_D\<close>: the three copies follow the results.\<close>

definition tester_D_saved :: tester where
  "tester_D_saved =
     \<lparr>store = [result_A, result_B, result_C,
               result_A,
               [(''exchange'', PStr ''bybit''), (''test_type'', PStr ''rest''),
                (''latency'', PStr ''inf''),
                (''status_code'', PInt 503), (''success'', PBool False)],
               [(''exchange'', PStr ''gateio''), (''test_type'', PStr ''rest''),
                (''latency'', PStr ''inf''), (''status_code'', PNone),
                (''success'', PBool False), (''error'', PStr ''timed out'')]],
      results = [(''binance'', 0), (''bybit'', 1), (''gateio'', 2)]\<rparr>"

definition save_ok :: save_env where
  "save_ok = \<lparr>now_stamp = ''20240101_120000'', now_iso = ''2024-01-01T12:00:03.000001'',
               open_raises = None, dump_raises = None\<rparr>"


text \<open>A run in which the user interrupts the request to bybit.\<close>

definition interrupted_world :: main_env where
  "interrupted_world =
     \<lparr>probes = (\<lambda>exchange. if exchange = ''bybit''
                               then scenario_B\<lparr>reply := Raises KeyboardInterrupt\<rparr>
                               else scenario_D exchange),
      saving = save_ok\<rparr>"

section \<open>Observations and conditions\<close>

text \<open>
  A bound on the seconds between the two readings of the clock, far above what the
  clock can show (\<^verbatim>\<open>perf_counter\<close> counts nanoseconds in 64 bits, less than \<open>2 ^ 34\<close>
  seconds), under which the milliseconds do not overflow a double.
\<close>

definition max_elapsed :: rat where
  "max_elapsed = 2 ^ 1000"

text \<open>The urls requested, in order.\<close>

fun get_url :: "event \<Rightarrow> string list" where
  "get_url (HttpGet url _ _) = [url]"
| "get_url _ = []"

definition requested :: "event list \<Rightarrow> string list" where
  "requested evs = concat (map get_url evs)"

text \<open>The events of the report and of the save: what is printed, and the file.\<close>

fun is_report :: "event \<Rightarrow> bool" where
  "is_report (Print _) = True"
| "is_report (Open _) = True"
| "is_report (JsonDump _ _) = True"
| "is_report PrintExc = True"
| "is_report _ = False"

text \<open>
  The request returns to \<^verbatim>\<open>test_rest_latency\<close>: with a response, or with an exception
  that its handler catches.
\<close>

fun request_returns :: "http_reply \<Rightarrow> bool" where
  "request_returns (Response _) = True"
| "request_returns (Raises (RequestException _)) = True"
| "request_returns (Raises _) = False"

definition probe_completes :: "probe_env \<Rightarrow> bool" where
  "probe_completes env \<longleftrightarrow> request_returns (reply env) \<and> sleep_raises env = None"

text \<open>The user interrupts the request, or the pause after a request that returned.\<close>

definition interrupted :: "probe_env \<Rightarrow> bool" where
  "interrupted env \<longleftrightarrow>
     reply env = Raises KeyboardInterrupt
     \<or> (request_returns (reply env) \<and> sleep_raises env = Some KeyboardInterrupt)"

text \<open>
  The references of \<^verbatim>\<open>self.results\<close> point into the store, and the keys of each
  dictionary are distinct, as Python keeps them.
\<close>

definition wf_tester :: "tester \<Rightarrow> bool" where
  "wf_tester self \<longleftrightarrow>
     distinct (map fst (results self))
     \<and> list_all (\<lambda>(k, a). a < length (store self) \<and> distinct (map fst (store self ! a)))
          (results self)"

text \<open>The result set as values: each key with the dictionary its reference points to.\<close>

definition results_view :: "tester \<Rightarrow> (string \<times> pydict) list" where
  "results_view self = map (\<lambda>(k, a). (k, store self ! a)) (results self)"

text \<open>
  What one round of the loop of the save leaves in the copy \<^verbatim>\<open>serializable_result\<close>.
\<close>

definition serializable :: "pydict \<Rightarrow> pydict" where
  "serializable d =
     (if ''latency'' \<in> set (map fst d) \<and> map_of d ''latency'' = Some (PFloat PosInf)
      then dict_set d ''latency'' (PStr ''inf'') else d)"

text \<open>
  The serialized form of one result in the words of the specification: a \<^verbatim>\<open>latency\<close>
  that is the infinity becomes the string \<^verbatim>\<open>"inf"\<close>, every other field is as it was.
\<close>

definition spec_serialized :: "pydict \<Rightarrow> pyobj" where
  "spec_serialized d =
     Dict (map (\<lambda>(f, v). (f, Val (if f = ''latency'' \<and> v = PFloat PosInf
                                  then PStr ''inf'' else v))) d)"

section \<open>Rounding to a double\<close>

lemma ilog2_le: "1 \<le> n \<Longrightarrow> 2 ^ ilog2 n \<le> n"
proof (induction n rule: ilog2.induct)
  case (1 n)
  show ?case
  proof (cases "n < 2")
    case True
    with "1.prems" show ?thesis by (simp add: ilog2.simps)
  next
    case False
    then have "1 \<le> n div 2" by simp
    with "1.IH" False have "2 ^ ilog2 (n div 2) \<le> n div 2" by simp
    then have "2 * 2 ^ ilog2 (n div 2) \<le> 2 * (n div 2)" by simp
    also have "\<dots> \<le> n" by simp
    finally show ?thesis using False by (simp add: ilog2.simps [of n])
  qed
qed

lemma ilog2_gt: "n < 2 ^ Suc (ilog2 n)"
proof (induction n rule: ilog2.induct)
  case (1 n)
  show ?case
  proof (cases "n < 2")
    case True
    then show ?thesis by (simp add: ilog2.simps)
  next
    case False
    with "1.IH" have "n div 2 < 2 ^ Suc (ilog2 (n div 2))" by simp
    then have "n div 2 + 1 \<le> 2 ^ Suc (ilog2 (n div 2))" by simp
    then have "2 * (n div 2 + 1) \<le> 2 * 2 ^ Suc (ilog2 (n div 2))" by simp
    moreover have "n < 2 * (n div 2 + 1)" by simp
    ultimately have "n < 2 * 2 ^ Suc (ilog2 (n div 2))" by linarith
    then show ?thesis using False by (simp add: ilog2.simps [of n])
  qed
qed

lemma pow2_pos: "0 < pow2 e"
  by (simp add: pow2_def)

lemma pow2_mono: "a \<le> b \<Longrightarrow> pow2 a \<le> pow2 b"
  by (simp add: pow2_def power_int_increasing)

lemma pow2_nat: "pow2 (int n) = 2 ^ n"
  by (simp add: pow2_def)

lemma pow2_add: "pow2 (a + b) = pow2 a * pow2 b"
  by (simp add: pow2_def power_int_add)

lemma pow2_neg: "pow2 (- a) = 1 / pow2 a"
  by (simp add: pow2_def power_int_minus field_simps)

lemma expo_le:
  assumes "0 < q"
  shows "pow2 (expo q) \<le> q"
proof (cases "1 \<le> q")
  case True
  then have "1 \<le> nat \<lfloor>q\<rfloor>" by linarith
  from ilog2_le [OF this] have "(2::nat) ^ ilog2 (nat \<lfloor>q\<rfloor>) \<le> nat \<lfloor>q\<rfloor>" .
  then have "(of_nat (2 ^ ilog2 (nat \<lfloor>q\<rfloor>)) :: rat) \<le> of_nat (nat \<lfloor>q\<rfloor>)"
    by (rule of_nat_mono)
  also have "\<dots> = of_int \<lfloor>q\<rfloor>" using True by simp
  also have "\<dots> \<le> q" by simp
  finally show ?thesis using True by (simp add: expo_def pow2_nat)
next
  case False
  let ?p = "1 / q"
  let ?n = "nat \<lceil>?p\<rceil> - 1"
  from False assms have p: "1 < ?p" by simp
  then have c: "2 \<le> \<lceil>?p\<rceil>" by linarith
  have "?n < 2 ^ Suc (ilog2 ?n)" by (rule ilog2_gt)
  then have "nat \<lceil>?p\<rceil> \<le> 2 ^ Suc (ilog2 ?n)" using c by linarith
  then have le: "(of_nat (nat \<lceil>?p\<rceil>) :: rat) \<le> of_nat (2 ^ Suc (ilog2 ?n))"
    by (rule of_nat_mono)
  have "?p \<le> of_int \<lceil>?p\<rceil>" by (rule le_of_int_ceiling)
  also have "\<dots> = of_nat (nat \<lceil>?p\<rceil>)" using c by simp
  also note le
  finally have "?p \<le> 2 ^ Suc (ilog2 ?n)" by simp
  then have "1 / 2 ^ Suc (ilog2 ?n) \<le> q"
    using assms by (simp add: field_simps)
  moreover have "pow2 (expo q) = 1 / 2 ^ Suc (ilog2 ?n)"
  proof -
    have "expo q = - int (Suc (ilog2 ?n))" using False by (simp add: expo_def)
    then have "pow2 (expo q) = 1 / pow2 (int (Suc (ilog2 ?n)))" by (simp only: pow2_neg)
    then show ?thesis by (simp only: pow2_nat)
  qed
  ultimately show ?thesis by simp
qed

lemma round_half_even_bounds:
  "of_int (round_half_even x) \<le> x + 1 / 2" "x - 1 / 2 \<le> of_int (round_half_even x)"
  by (simp_all add: round_half_even_def Let_def; linarith)+

lemma round_half_even_ge_floor: "\<lfloor>x\<rfloor> \<le> round_half_even x"
  by (simp add: round_half_even_def Let_def)


lemma ulp_bound:
  assumes "0 < q"
  shows "pow2 (max (expo q) (- 1022) - 52) \<le> q \<or> pow2 (max (expo q) (- 1022) - 52) \<le> 1"
proof (cases "- 1022 \<le> expo q")
  case True
  have "pow2 (expo q - 52) \<le> pow2 (expo q)" by (rule pow2_mono) simp
  also have "\<dots> \<le> q" by (rule expo_le [OF assms])
  finally show ?thesis using True by (simp add: max_def)
next
  case False
  have "pow2 (- 1022 - 52) \<le> pow2 0" by (rule pow2_mono) simp
  then show ?thesis using False by (simp add: max_def pow2_def)
qed

lemma round_double_pos:
  assumes "0 < q"
  shows "round_double q =
           (if pow2 1024 \<le> of_int (round_half_even (q / pow2 (max (expo q) (- 1022) - 52)))
                               * pow2 (max (expo q) (- 1022) - 52)
            then PosInf
            else Finite (of_int (round_half_even (q / pow2 (max (expo q) (- 1022) - 52)))
                           * pow2 (max (expo q) (- 1022) - 52)))"
  using assms by (simp add: round_double_def Let_def)

lemma round_double_upper:
  assumes "0 \<le> q" and "q \<le> pow2 1023"
  shows "\<exists>r. round_double q = Finite r \<and> 0 \<le> r \<and> r \<le> 2 * q + 1"
proof (cases "q = 0")
  case True
  then show ?thesis by (simp add: round_double_def)
next
  case False
  with assms have pos: "0 < q" by simp
  define u where "u = pow2 (max (expo q) (- 1022) - 52)"
  define r where "r = of_int (round_half_even (q / u)) * u"
  have u: "0 < u" by (simp add: u_def pow2_pos)
  have ub: "u \<le> q \<or> u \<le> 1" unfolding u_def by (rule ulp_bound [OF pos])
  have "of_int (round_half_even (q / u)) \<le> q / u + 1 / 2"
    by (rule round_half_even_bounds)
  then have "of_int (round_half_even (q / u)) * u \<le> (q / u + 1 / 2) * u"
    using u by (simp only: mult_le_cancel_right_pos)
  also have "\<dots> = q + u / 2" using u by (simp add: field_simps)
  finally have r1: "r \<le> q + u / 2" by (simp add: r_def)
  have "0 \<le> q / u" using pos u by simp
  then have "0 \<le> \<lfloor>q / u\<rfloor>" by simp
  then have "0 \<le> round_half_even (q / u)"
    using round_half_even_ge_floor [of "q / u"] by linarith
  then have r0: "0 \<le> r" using u by (simp add: r_def)
  have two: "pow2 1024 = 2 * pow2 1023"
    using pow2_add [of 1 1023] by (simp add: pow2_def)
  have one: "1 < pow2 1023"
  proof -
    have "pow2 1 \<le> pow2 1023" by (rule pow2_mono) simp
    then show ?thesis by (simp add: pow2_def)
  qed
  from ub r1 pos have r2: "r \<le> 2 * q + 1" by auto
  from ub r1 pos assms(2) one have "r < 2 * pow2 1023" by auto
  then have fin: "\<not> pow2 1024 \<le> r" by (simp add: two)
  have "round_double q = Finite r"
    using fin unfolding r_def u_def by (simp add: round_double_pos [OF pos])
  with r0 r2 show ?thesis by blast
qed

lemma round_double_lower:
  assumes "1 \<le> q"
  shows "round_double q = PosInf
       \<or> (\<exists>r. round_double q = Finite r \<and> q / 2 \<le> r \<and> r < pow2 1024)"
proof -
  from assms have pos: "0 < q" by simp
  define u where "u = pow2 (max (expo q) (- 1022) - 52)"
  define r where "r = of_int (round_half_even (q / u)) * u"
  have u: "0 < u" by (simp add: u_def pow2_pos)
  have "0 \<le> expo q" using assms by (simp add: expo_def)
  then have "u = pow2 (expo q - 52)" by (simp add: u_def max_def)
  also have "\<dots> \<le> pow2 (expo q)" by (rule pow2_mono) simp
  also have "\<dots> \<le> q" by (rule expo_le [OF pos])
  finally have uq: "u \<le> q" .
  have "q / u - 1 / 2 \<le> of_int (round_half_even (q / u))"
    by (rule round_half_even_bounds)
  then have "(q / u - 1 / 2) * u \<le> of_int (round_half_even (q / u)) * u"
    using u by (simp only: mult_le_cancel_right_pos)
  moreover have "(q / u - 1 / 2) * u = q - u / 2" using u by (simp add: field_simps)
  ultimately have "q - u / 2 \<le> r" by (simp add: r_def)
  with uq have low: "q / 2 \<le> r" by simp
  have "round_double q = (if pow2 1024 \<le> r then PosInf else Finite r)"
    unfolding r_def u_def by (rule round_double_pos [OF pos])
  with low show ?thesis by (cases "pow2 1024 \<le> r") auto
qed

text \<open>
  The latency of a success, \<^verbatim>\<open>(end_time - start_time) * 1000\<close>: finite and not negative
  when the readings are in order and not more than \<open>max_elapsed\<close> apart.
\<close>

lemma latency_finite:
  assumes "a \<le> b" and "b - a \<le> max_elapsed"
  shows "\<exists>q. float_mul (float_sub (Finite b) (Finite a)) (Finite 1000) = Finite q \<and> 0 \<le> q"
proof -
  have big: "pow2 1023 = 2 ^ 23 * max_elapsed"
    using pow2_add [of 23 1000] by (simp add: pow2_def max_elapsed_def)
  have one: "1 \<le> max_elapsed"
    by (simp add: max_elapsed_def)
  from assms have d0: "0 \<le> b - a" by simp
  from assms(2) one have d1: "b - a \<le> pow2 1023"
    by (simp add: big)
  from round_double_upper [OF d0 d1] obtain d where
    d: "round_double (b - a) = Finite d" "0 \<le> d" "d \<le> 2 * (b - a) + 1" by blast
  from d(2) have m0: "0 \<le> d * 1000" by simp
  from d(3) assms(2) one have m1: "d * 1000 \<le> pow2 1023"
    by (simp add: big)
  from round_double_upper [OF m0 m1] obtain q where
    "round_double (d * 1000) = Finite q" "0 \<le> q" by blast
  with d(1) show ?thesis
    by (simp add: float_sub.simps float_mul.simps)
qed

text \<open>
  Without the bound the product overflows: readings \<open>pow2 1017\<close> seconds apart give the
  infinity as the latency of a success.
\<close>

lemma latency_overflow:
  assumes "pow2 1017 \<le> b - a"
  shows "float_mul (float_sub (Finite b) (Finite a)) (Finite 1000) = PosInf"
proof -
  have p: "pow2 1017 = 2 ^ 7 * pow2 1010" "pow2 1024 = 2 ^ 14 * pow2 1010"
    using pow2_add [of 7 1010] pow2_add [of 14 1010] by (simp_all add: pow2_def)
  have pos: "0 < pow2 1010" by (rule pow2_pos)
  have "pow2 0 \<le> pow2 1017" by (rule pow2_mono) simp
  then have "1 \<le> pow2 1017" by (simp add: pow2_def)
  with assms have ge1: "1 \<le> b - a" by simp
  from round_double_lower [OF ge1] show ?thesis
  proof
    assume "round_double (b - a) = PosInf"
    then show ?thesis by (simp add: float_sub.simps float_mul.simps)
  next
    assume "\<exists>d. round_double (b - a) = Finite d \<and> (b - a) / 2 \<le> d \<and> d < pow2 1024"
    then obtain d where d: "round_double (b - a) = Finite d" "(b - a) / 2 \<le> d" by blast
    from d(2) assms have dl: "2 ^ 6 * pow2 1010 \<le> d" by (simp add: p)
    with pos have "1 \<le> d * 1000"
      using pow2_mono [of 0 1010] by (simp add: pow2_def)
    from round_double_lower [OF this] have "round_double (d * 1000) = PosInf"
    proof
      assume "round_double (d * 1000) = PosInf"
      then show ?thesis .
    next
      assume "\<exists>r. round_double (d * 1000) = Finite r \<and> d * 1000 / 2 \<le> r \<and> r < pow2 1024"
      then obtain r where "d * 1000 / 2 \<le> r" "r < pow2 1024" by blast
      with dl pos have False by (simp add: p)
      then show ?thesis ..
    qed
    with d(1) show ?thesis by (simp add: float_sub.simps float_mul.simps)
  qed
qed

text \<open>The arithmetic of scenario A, evaluated.\<close>

lemma latency_A:
  "float_mul (float_sub (Finite (68313 / 65536)) (Finite 1)) (Finite 1000)
     = Finite (347125 / 8192)"
  by code_simp

lemma format_A: "format_2f_rat (347125 / 8192) = ''42.37''"
  by code_simp

section \<open>The prober\<close>

lemma test_rest_latency_Inr:
  assumes "test_rest_latency env exchange = (evs, Inr r)"
  shows "(reply env = Response 200 \<and>
            r = [(''exchange'', PStr exchange), (''test_type'', PStr ''rest''),
                 (''latency'', PFloat (float_mul (float_sub (Finite (t_end env))
                                                           (Finite (t_start env)))
                                                (Finite 1000))),
                 (''status_code'', PInt 200), (''success'', PBool True)])
       \<or> (\<exists>status_code. reply env = Response status_code \<and> status_code \<noteq> 200 \<and>
            r = [(''exchange'', PStr exchange), (''test_type'', PStr ''rest''),
                 (''latency'', PFloat PosInf),
                 (''status_code'', PInt status_code), (''success'', PBool False)])
       \<or> (\<exists>msg. reply env = Raises (RequestException msg) \<and>
            r = [(''exchange'', PStr exchange), (''test_type'', PStr ''rest''),
                 (''latency'', PFloat PosInf), (''status_code'', PNone),
                 (''success'', PBool False), (''error'', PStr msg)])"
  using assms
  by (auto simp: test_rest_latency_def Let_def
      split: option.splits http_reply.splits exn.splits if_splits)

lemma probe_success_latency_overflow:
  assumes "reply env = Response 200" and "map_of endpoints exchange = Some endpoint"
    and "pow2 1017 \<le> t_end env - t_start env"
  shows "snd (test_rest_latency env exchange)
       = Inr [(''exchange'', PStr exchange), (''test_type'', PStr ''rest''),
              (''latency'', PFloat PosInf),
              (''status_code'', PInt 200), (''success'', PBool True)]"
  using assms(1,2) latency_overflow [OF assms(3)]
  by (simp add: test_rest_latency_def Let_def)

text \<open>
  Claim C1. For a dictionary returned by \<^verbatim>\<open>test_rest_latency\<close>, \<^verbatim>\<open>success\<close> is
  \<^verbatim>\<open>True\<close> exactly when \<^verbatim>\<open>status_code\<close> is 200, and that exactly when \<^verbatim>\<open>latency\<close>
  is a finite number that is not negative. The latency is computed in doubles, as the
  source computes it. The clock is as \<^verbatim>\<open>time.perf_counter\<close> is: monotonic (the second
  reading is not below the first), with readings not more than \<open>max_elapsed\<close> seconds
  apart; \<open>probe_success_latency_overflow\<close> shows what readings further apart give.
\<close>

theorem probe_success_iff_200_iff_finite_latency:
  assumes "test_rest_latency env exchange = (evs, Inr r)"
    and "t_start env \<le> t_end env"
    and "t_end env - t_start env \<le> max_elapsed"
  shows "(map_of r ''success'' = Some (PBool True)
            \<longleftrightarrow> map_of r ''status_code'' = Some (PInt 200))
       \<and> (map_of r ''status_code'' = Some (PInt 200)
            \<longleftrightarrow> (\<exists>q. map_of r ''latency'' = Some (PFloat (Finite q)) \<and> 0 \<le> q))"
  using test_rest_latency_Inr [OF assms(1)] latency_finite [OF assms(2) assms(3)] by auto

theorem probe_success_iff_200_iff_finite_latency_witness:
  "test_rest_latency scenario_A ''binance''
     = ([Log INFO ''Testing REST latency for BINANCE'',
         HttpGet ''https://api.binance.com/api/v3/time'' headers 10,
         Log INFO ''Request: 42.37 ms (Status: 200)''],
        Inr [(''exchange'', PStr ''binance''), (''test_type'', PStr ''rest''),
             (''latency'', PFloat (Finite (347125 / 8192))),
             (''status_code'', PInt 200), (''success'', PBool True)])
   \<and> t_start scenario_A \<le> t_end scenario_A
   \<and> t_end scenario_A - t_start scenario_A \<le> max_elapsed
   \<and> (\<exists>q. map_of [(''exchange'', PStr ''binance''), (''test_type'', PStr ''rest''),
                     (''latency'', PFloat (Finite (347125 / 8192))),
                     (''status_code'', PInt 200), (''success'', PBool True)] ''latency''
              = Some (PFloat (Finite q)) \<and> 0 \<le> q)"
proof -
  have run: "test_rest_latency scenario_A ''binance''
     = ([Log INFO ''Testing REST latency for BINANCE'',
         HttpGet ''https://api.binance.com/api/v3/time'' headers 10,
         Log INFO ''Request: 42.37 ms (Status: 200)''],
        Inr [(''exchange'', PStr ''binance''), (''test_type'', PStr ''rest''),
             (''latency'', PFloat (Finite (347125 / 8192))),
             (''status_code'', PInt 200), (''success'', PBool True)])"
    by (simp add: test_rest_latency_def scenario_A_def endpoints_def upper_def upper_char_def
        latency_A format_A str_nat.simps digit_char_def str_int_def)
  have mono: "t_start scenario_A \<le> t_end scenario_A"
    by (simp add: scenario_A_def)
  have "(2777 / 65536 :: rat) \<le> 1" by simp
  also have "(1 :: rat) \<le> 2 ^ 1000" by (rule one_le_power) simp
  finally have near: "t_end scenario_A - t_start scenario_A \<le> max_elapsed"
    by (simp add: scenario_A_def max_elapsed_def)
  show ?thesis
    using run mono near probe_success_iff_200_iff_finite_latency [OF run mono near] by simp
qed

text \<open>
  Claim C3. A dictionary returned by \<^verbatim>\<open>test_rest_latency\<close> whose \<^verbatim>\<open>success\<close> is
  \<^verbatim>\<open>False\<close> has \<^verbatim>\<open>float('inf')\<close> as its \<^verbatim>\<open>latency\<close>, after a status other than 200
  and after a \<^verbatim>\<open>RequestException\<close> alike.
\<close>

theorem probe_failure_latency_inf:
  assumes "test_rest_latency env exchange = (evs, Inr r)"
    and "map_of r ''success'' = Some (PBool False)"
  shows "map_of r ''latency'' = Some (PFloat PosInf)"
  using test_rest_latency_Inr [OF assms(1)] assms(2) by auto

theorem probe_failure_latency_inf_witness:
  "test_rest_latency scenario_B ''bybit''
     = ([Log INFO ''Testing REST latency for BYBIT'',
         HttpGet ''https://api.bybit.com/v5/market/time'' headers 10,
         Log WARNING ''Request failed with status code 503''],
        Inr [(''exchange'', PStr ''bybit''), (''test_type'', PStr ''rest''),
             (''latency'', PFloat PosInf),
             (''status_code'', PInt 503), (''success'', PBool False)])
   \<and> map_of [(''exchange'', PStr ''bybit''), (''test_type'', PStr ''rest''),
              (''latency'', PFloat PosInf),
              (''status_code'', PInt 503), (''success'', PBool False)] ''success''
       = Some (PBool False)
   \<and> map_of [(''exchange'', PStr ''bybit''), (''test_type'', PStr ''rest''),
              (''latency'', PFloat PosInf),
              (''status_code'', PInt 503), (''success'', PBool False)] ''latency''
       = Some (PFloat PosInf)"
proof -
  have run: "test_rest_latency scenario_B ''bybit''
     = ([Log INFO ''Testing REST latency for BYBIT'',
         HttpGet ''https://api.bybit.com/v5/market/time'' headers 10,
         Log WARNING ''Request failed with status code 503''],
        Inr [(''exchange'', PStr ''bybit''), (''test_type'', PStr ''rest''),
             (''latency'', PFloat PosInf),
             (''status_code'', PInt 503), (''success'', PBool False)])"
    by (simp add: test_rest_latency_def scenario_B_def endpoints_def upper_def upper_char_def
        str_nat.simps digit_char_def str_int_def)
  have failed: "map_of [(''exchange'', PStr ''bybit''), (''test_type'', PStr ''rest''),
              (''latency'', PFloat PosInf),
              (''status_code'', PInt 503), (''success'', PBool False)] ''success''
       = Some (PBool False)"
    by simp
  show ?thesis
    using run failed probe_failure_latency_inf [OF run failed] by simp
qed

text \<open>
  Claim C4. When \<^verbatim>\<open>requests.get\<close> raises a \<^verbatim>\<open>RequestException\<close> (timeout, DNS,
  refused connection, TLS), the probe of a configured exchange returns a dictionary with
  \<^verbatim>\<open>success\<close> \<^verbatim>\<open>False\<close>, \<^verbatim>\<open>latency\<close> \<^verbatim>\<open>float('inf')\<close>, no status code (the key
  \<^verbatim>\<open>status_code\<close> holds \<^verbatim>\<open>None\<close>) and \<^verbatim>\<open>error\<close> the text \<^verbatim>\<open>str(e)\<close>.
\<close>

theorem transport_failure_result:
  assumes "reply env = Raises (RequestException msg)"
    and "map_of endpoints exchange = Some endpoint"
  shows "\<exists>evs r. test_rest_latency env exchange = (evs, Inr r)
           \<and> map_of r ''success'' = Some (PBool False)
           \<and> map_of r ''latency'' = Some (PFloat PosInf)
           \<and> map_of r ''status_code'' = Some PNone
           \<and> map_of r ''error'' = Some (PStr msg)"
  using assms by (simp add: test_rest_latency_def Let_def)

theorem transport_failure_result_witness:
  "reply scenario_C = Raises (RequestException ''timed out'')
   \<and> map_of endpoints ''gateio'' = Some ''https://api.gateio.ws/api/v4/spot/time''
   \<and> (\<exists>evs r. test_rest_latency scenario_C ''gateio'' = (evs, Inr r)
           \<and> map_of r ''success'' = Some (PBool False)
           \<and> map_of r ''latency'' = Some (PFloat PosInf)
           \<and> map_of r ''status_code'' = Some PNone
           \<and> map_of r ''error'' = Some (PStr ''timed out''))"
proof -
  have exc: "reply scenario_C = Raises (RequestException ''timed out'')"
    by (simp add: scenario_C_def)
  have conf: "map_of endpoints ''gateio'' = Some ''https://api.gateio.ws/api/v4/spot/time''"
    by (simp add: endpoints_def)
  show ?thesis
    using exc conf transport_failure_result [OF exc conf] by simp
qed

section \<open>The runner\<close>

lemma test_rest_latency_completes:
  assumes "request_returns (reply env)" and "map_of endpoints exchange = Some endpoint"
  shows "\<exists>evs r. test_rest_latency env exchange = (evs, Inr r)
           \<and> requested evs = [endpoint] \<and> filter is_report evs = []"
  using assms
  by (cases "reply env" rule: request_returns.cases)
     (auto simp: test_rest_latency_def Let_def requested_def)

lemma test_rest_latency_raises:
  assumes "\<not> request_returns (reply env)" and "map_of endpoints exchange = Some endpoint"
  shows "\<exists>e. reply env = Raises e \<and>
           test_rest_latency env exchange
             = ([Log INFO (''Testing REST latency for '' @ upper exchange),
                 HttpGet endpoint headers 10], Inl e)"
  using assms
  by (cases "reply env" rule: request_returns.cases)
     (auto simp: test_rest_latency_def Let_def)

lemma test_rest_latency_exchange:
  assumes "test_rest_latency env exchange = (evs, Inr r)"
  shows "map_of r ''exchange'' = Some (PStr exchange)"
  using test_rest_latency_Inr [OF assms] by auto

text \<open>
  A run that returns leaves a well-formed tester: \<^verbatim>\<open>run_tests\<close> is the only writer of
  \<^verbatim>\<open>self.results\<close>.
\<close>

lemma probe_result_distinct_keys:
  assumes "test_rest_latency env exchange = (evs, Inr r)"
  shows "distinct (map fst r)"
  using test_rest_latency_Inr [OF assms] by auto

lemma run_loop_wf:
  assumes "run_loop penv exs h res = (evs, h', Inr res')"
    and "distinct exs" and "set exs \<inter> set (map fst res) = {}"
    and "wf_tester \<lparr>store = h, results = res\<rparr>"
  shows "wf_tester \<lparr>store = h', results = res'\<rparr>"
  using assms
proof (induction exs arbitrary: h res evs)
  case Nil
  then show ?case by simp
next
  case (Cons x exs)
  obtain ev2 pr where p: "test_rest_latency (penv x) x = (ev2, pr)"
    by (cases "test_rest_latency (penv x) x")
  with Cons.prems(1) obtain r where r: "pr = Inr r"
    by (cases pr) (auto simp: Let_def)
  from Cons.prems(1) p r have sl: "sleep_raises (penv x) = None"
    by (cases "sleep_raises (penv x)") (auto simp: Let_def alloc_def)
  from Cons.prems(3) have fresh: "x \<notin> set (map fst res)" by auto
  then have ds: "dict_set res x (length h) = res @ [(x, length h)]"
    by (simp add: dict_set_def)
  obtain ev3 where rest:
    "run_loop penv exs (h @ [r]) (res @ [(x, length h)]) = (ev3, h', Inr res')"
    using Cons.prems(1) p r sl ds
    by (auto simp: Let_def alloc_def split: prod.splits)
  have d: "distinct exs" using Cons.prems(2) by simp
  have i: "set exs \<inter> set (map fst (res @ [(x, length h)])) = {}"
    using Cons.prems(2,3) by auto
  have w: "wf_tester \<lparr>store = h @ [r], results = res @ [(x, length h)]\<rparr>"
    using Cons.prems(4) fresh probe_result_distinct_keys [OF p [unfolded r]]
    by (auto simp: wf_tester_def list_all_iff nth_append)
  from Cons.IH [OF rest d i w] show ?case .
qed

lemma run_tests_wf:
  assumes "run_tests penv self = (evs, self', Inr res)"
  shows "wf_tester self'"
proof -
  obtain ev h r where l: "run_loop penv [''binance'', ''bybit'', ''gateio''] (store self) [] = (ev, h, r)"
    by (cases "run_loop penv [''binance'', ''bybit'', ''gateio''] (store self) []") auto
  with assms have r: "r = Inr res" and s: "self' = self\<lparr>store := h, results := res\<rparr>"
    by (cases r; auto simp: run_tests_def)+
  have "wf_tester \<lparr>store = store self, results = []\<rparr>"
    by (simp add: wf_tester_def)
  from run_loop_wf [OF l [unfolded r] _ _ this]
  have "wf_tester \<lparr>store = h, results = res\<rparr>" by simp
  then show ?thesis by (simp add: s wf_tester_def)
qed

text \<open>
  Claim C5. A run of \<^verbatim>\<open>run_tests\<close> in which every probe and every pause completes
  returns, and assigns to \<^verbatim>\<open>self.results\<close>, a dictionary with exactly the keys binance,
  bybit, gateio in this order, which are the configured exchanges; each key refers to
  its own new dictionary, the one \<^verbatim>\<open>test_rest_latency\<close> returned for that exchange,
  and the three requests go out in the same order.
\<close>

theorem run_tests_one_result_per_exchange:
  assumes "list_all (\<lambda>ex. probe_completes (penv ex)) [''binance'', ''bybit'', ''gateio'']"
  shows "\<exists>evs self' r1 r2 r3.
           run_tests penv self = (evs, self', Inr (results self'))
         \<and> results self' = [(''binance'', length (store self)),
                             (''bybit'', length (store self) + 1),
                             (''gateio'', length (store self) + 2)]
         \<and> map fst (results self') = map fst endpoints
         \<and> store self' = store self @ [r1, r2, r3]
         \<and> snd (test_rest_latency (penv ''binance'') ''binance'') = Inr r1
         \<and> snd (test_rest_latency (penv ''bybit'') ''bybit'') = Inr r2
         \<and> snd (test_rest_latency (penv ''gateio'') ''gateio'') = Inr r3
         \<and> map_of r1 ''exchange'' = Some (PStr ''binance'')
         \<and> map_of r2 ''exchange'' = Some (PStr ''bybit'')
         \<and> map_of r3 ''exchange'' = Some (PStr ''gateio'')
         \<and> requested evs = map snd endpoints"
proof -
  from assms have ret: "request_returns (reply (penv ''binance''))"
      "request_returns (reply (penv ''bybit''))" "request_returns (reply (penv ''gateio''))"
    and sl: "sleep_raises (penv ''binance'') = None" "sleep_raises (penv ''bybit'') = None"
      "sleep_raises (penv ''gateio'') = None"
    by (simp_all add: probe_completes_def)
  have c1: "map_of endpoints ''binance'' = Some ''https://api.binance.com/api/v3/time''"
    and c2: "map_of endpoints ''bybit'' = Some ''https://api.bybit.com/v5/market/time''"
    and c3: "map_of endpoints ''gateio'' = Some ''https://api.gateio.ws/api/v4/spot/time''"
    by (simp_all add: endpoints_def)
  from test_rest_latency_completes [OF ret(1) c1] obtain e1 r1 where
    p1: "test_rest_latency (penv ''binance'') ''binance'' = (e1, Inr r1)"
      "requested e1 = [''https://api.binance.com/api/v3/time'']" by blast
  from test_rest_latency_completes [OF ret(2) c2] obtain e2 r2 where
    p2: "test_rest_latency (penv ''bybit'') ''bybit'' = (e2, Inr r2)"
      "requested e2 = [''https://api.bybit.com/v5/market/time'']" by blast
  from test_rest_latency_completes [OF ret(3) c3] obtain e3 r3 where
    p3: "test_rest_latency (penv ''gateio'') ''gateio'' = (e3, Inr r3)"
      "requested e3 = [''https://api.gateio.ws/api/v4/spot/time'']" by blast
  have loop: "run_loop penv [''binance'', ''bybit'', ''gateio''] (store self) []
      = ([Log INFO (CHR 0x0A # replicate 50 (CHR ''='')), Log INFO (''Testing '' @ upper ''binance''),
          Log INFO (replicate 50 (CHR ''=''))] @ e1 @ [Sleep 1]
         @ [Log INFO (CHR 0x0A # replicate 50 (CHR ''='')), Log INFO (''Testing '' @ upper ''bybit''),
          Log INFO (replicate 50 (CHR ''=''))] @ e2 @ [Sleep 1]
         @ [Log INFO (CHR 0x0A # replicate 50 (CHR ''='')), Log INFO (''Testing '' @ upper ''gateio''),
          Log INFO (replicate 50 (CHR ''=''))] @ e3 @ [Sleep 1],
         store self @ [r1, r2, r3],
         Inr [(''binance'', length (store self)), (''bybit'', length (store self) + 1),
              (''gateio'', length (store self) + 2)])"
    using p1(1) p2(1) p3(1) sl by (simp add: alloc_def dict_set_def)
  have ex: "map_of r1 ''exchange'' = Some (PStr ''binance'')"
    "map_of r2 ''exchange'' = Some (PStr ''bybit'')"
    "map_of r3 ''exchange'' = Some (PStr ''gateio'')"
    using p1(1) p2(1) p3(1) by (simp_all add: test_rest_latency_exchange)
  show ?thesis
    unfolding run_tests_def loop
    using p1 p2 p3 ex by (simp add: requested_def endpoints_def)
qed

theorem run_tests_one_result_per_exchange_witness:
  "list_all (\<lambda>ex. probe_completes (scenario_D ex)) [''binance'', ''bybit'', ''gateio'']
   \<and> (\<exists>evs. run_tests scenario_D init_tester = (evs, tester_D, Inr (results tester_D)))"
proof -
  have a: "list_all (\<lambda>ex. probe_completes (scenario_D ex)) [''binance'', ''bybit'', ''gateio'']"
    by (simp add: scenario_D_def scenario_A_def scenario_B_def scenario_C_def probe_completes_def)
  have r1: "snd (test_rest_latency (scenario_D ''binance'') ''binance'') = Inr result_A"
    by (simp add: test_rest_latency_def scenario_D_def scenario_A_def endpoints_def result_A_def
        Let_def latency_A)
  have r2: "snd (test_rest_latency (scenario_D ''bybit'') ''bybit'') = Inr result_B"
    by (simp add: test_rest_latency_def scenario_D_def scenario_B_def endpoints_def result_B_def)
  have r3: "snd (test_rest_latency (scenario_D ''gateio'') ''gateio'') = Inr result_C"
    by (simp add: test_rest_latency_def scenario_D_def scenario_C_def endpoints_def result_C_def)
  from run_tests_one_result_per_exchange [OF a, of init_tester]
  show ?thesis
    using a r1 r2 r3 by (auto simp: init_tester_def tester_D_def)
qed

section \<open>Empty result set\<close>

text \<open>
  Claim C6. With an empty \<^verbatim>\<open>self.results\<close>, \<^verbatim>\<open>print_results\<close> does nothing but log
  one warning, and \<^verbatim>\<open>save_results_to_file\<close> does nothing but log one warning: no
  print, no file opened, nothing written, the tester as it was.
\<close>

theorem empty_results_only_warn:
  assumes "results self = []"
  shows "print_results self = ([Log WARNING ''No results to display. Run tests first.''], Inr ())
       \<and> save_results_to_file env filename self = ([Log WARNING ''No results to save.''], self, Inr ())"
  using assms by (simp add: print_results_def save_results_to_file_def)

theorem empty_results_only_warn_witness:
  "results init_tester = []
   \<and> print_results init_tester = ([Log WARNING ''No results to display. Run tests first.''], Inr ())
   \<and> save_results_to_file save_ok None init_tester
        = ([Log WARNING ''No results to save.''], init_tester, Inr ())"
proof -
  have a: "results init_tester = []" by (simp add: init_tester_def)
  show ?thesis using a empty_results_only_warn [OF a, of save_ok None] by simp
qed

section \<open>The reporter\<close>

lemma probe_result_has_status_code:
  assumes "test_rest_latency env exchange = (evs, Inr r)"
  shows "map_of r ''status_code'' \<noteq> None"
  using test_rest_latency_Inr [OF assms] by auto

text \<open>
  Claim C8. The report of the run of scenario D, evaluated. The blocks of the success
  and of the 503 are as the claim says. The transport failure of gateio has no status
  code, and its block ends with the text \<^verbatim>\<open>None\<close>, not with the marker \<^verbatim>\<open>N/A\<close>: the
  default of \<^verbatim>\<open>result.get('status_code', 'N/A')\<close> is taken only when the key is
  missing, and \<open>probe_result_has_status_code\<close> shows that the prober always sets it.
\<close>

theorem print_results_transport_failure:
  "print_results tester_D =
     ([Print (CHR 0x0A # replicate 80 (CHR ''='')),
       Print ''LATENCY TEST RESULTS SUMMARY'',
       Print (replicate 80 (CHR ''='')),
       Print (CHR 0x0A # ''BINANCE Results:''),
       Print ''  Latency: 42.37 ms'',
       Print ''  Status Code: 200'',
       Print (CHR 0x0A # ''BYBIT Results:''),
       Print ''  Request failed'',
       Print ''  Status Code: 503'',
       Print (CHR 0x0A # ''GATEIO Results:''),
       Print ''  Request failed'',
       Print ''  Error: timed out'',
       Print ''  Status Code: None''], Inr ())"
  by (simp add: print_results_def tester_D_def result_A_def result_B_def result_C_def
      print_block_def bind_io_def emit_def lift_def subscript_def
      upper_def upper_char_def
      latency_A format_A str_nat.simps digit_char_def str_int_def)

section \<open>The driver\<close>

lemma run_loop_interrupted:
  assumes "list_all (\<lambda>ex. probe_completes (penv ex)) pre"
    and "interrupted (penv x)"
    and "list_all (\<lambda>ex. map_of endpoints ex \<noteq> None) (pre @ [x])"
  shows "\<exists>evs h'. run_loop penv (pre @ x # post) h res = (evs, h', Inl KeyboardInterrupt)
           \<and> requested evs = map (\<lambda>ex. the (map_of endpoints ex)) (pre @ [x])
           \<and> filter is_report evs = []"
  using assms
proof (induction pre arbitrary: h res)
  case Nil
  then obtain endpoint where conf: "map_of endpoints x = Some endpoint" by auto
  show ?case
  proof (cases "request_returns (reply (penv x))")
    case True
    with Nil(2) have sl: "sleep_raises (penv x) = Some KeyboardInterrupt"
      by (auto simp: interrupted_def)
    from test_rest_latency_completes [OF True conf] obtain evs r where
      "test_rest_latency (penv x) x = (evs, Inr r)" "requested evs = [endpoint]"
      "filter is_report evs = []" by blast
    with sl conf show ?thesis
      by (simp add: alloc_def requested_def)
  next
    case False
    with Nil(2) have "reply (penv x) = Raises KeyboardInterrupt"
      by (auto simp: interrupted_def)
    with test_rest_latency_raises [OF False conf] conf show ?thesis
      by (auto simp: requested_def)
  qed
next
  case (Cons p pre)
  then obtain endpoint where conf: "map_of endpoints p = Some endpoint" by auto
  from Cons.prems have ret: "request_returns (reply (penv p))" and sl: "sleep_raises (penv p) = None"
    by (auto simp: probe_completes_def)
  from test_rest_latency_completes [OF ret conf] obtain evs r where
    pr: "test_rest_latency (penv p) p = (evs, Inr r)" "requested evs = [endpoint]"
      "filter is_report evs = []" by blast
  from Cons.prems have "list_all (\<lambda>ex. probe_completes (penv ex)) pre"
    "list_all (\<lambda>ex. map_of endpoints ex \<noteq> None) (pre @ [x])" by auto
  from Cons.IH [OF this(1) Cons.prems(2) this(2), of "h @ [r]" "dict_set res p (length h)"]
  obtain evs' h' where
    "run_loop penv (pre @ x # post) (h @ [r]) (dict_set res p (length h)) = (evs', h', Inl KeyboardInterrupt)"
    "requested evs' = map (\<lambda>ex. the (map_of endpoints ex)) (pre @ [x])"
    "filter is_report evs' = []" by blast
  with pr sl conf show ?case
    by (simp add: alloc_def requested_def)
qed

lemma exchanges_configured:
  "list_all (\<lambda>ex. map_of endpoints ex \<noteq> None) [''binance'', ''bybit'', ''gateio'']"
  by (simp add: endpoints_def)

text \<open>
  Claim C9, as the code has it. When the user interrupts the request or the pause of
  exchange \<open>x\<close>, after the exchanges before it completed, \<^verbatim>\<open>main\<close> returns with the
  interrupt logged as its last event; the exchanges after \<open>x\<close> are not requested;
  nothing is printed and no file is opened or written (the report and the save are
  skipped, and no traceback is printed); \<^verbatim>\<open>self.results\<close> is still empty, so no
  result of this run is in it.
\<close>

theorem main_interrupted_skips_report:
  assumes "[''binance'', ''bybit'', ''gateio''] = pre @ x # post"
    and "list_all (\<lambda>ex. probe_completes (probes env ex)) pre"
    and "interrupted (probes env x)"
  shows "\<exists>evs tester. main env = (evs @ [Log INFO ''Test interrupted by user''], tester)
           \<and> requested evs = map (\<lambda>ex. the (map_of endpoints ex)) (pre @ [x])
           \<and> filter is_report evs = []
           \<and> results tester = []"
proof -
  have "list_all (\<lambda>ex. map_of endpoints ex \<noteq> None) (pre @ x # post)"
    using exchanges_configured assms(1) by simp
  then have conf: "list_all (\<lambda>ex. map_of endpoints ex \<noteq> None) (pre @ [x])"
    by simp
  from run_loop_interrupted [OF assms(2) assms(3) conf, of post "[]" "[]"]
  obtain evs h' where
    "run_loop (probes env) (pre @ x # post) [] [] = (evs, h', Inl KeyboardInterrupt)"
    "requested evs = map (\<lambda>ex. the (map_of endpoints ex)) (pre @ [x])"
    "filter is_report evs = []" by blast
  then show ?thesis
    using assms(1)
    by (simp add: main_def run_tests_def init_tester_def main_handler_def requested_def)
qed

theorem main_interrupted_skips_report_witness:
  "[''binance'', ''bybit'', ''gateio''] = [''binance''] @ ''bybit'' # [''gateio'']
   \<and> list_all (\<lambda>ex. probe_completes (probes interrupted_world ex)) [''binance'']
   \<and> interrupted (probes interrupted_world ''bybit'')
   \<and> (\<exists>evs tester. main interrupted_world = (evs @ [Log INFO ''Test interrupted by user''], tester)
           \<and> requested evs = [''https://api.binance.com/api/v3/time'', ''https://api.bybit.com/v5/market/time'']
           \<and> filter is_report evs = []
           \<and> results tester = [])"
proof -
  have a: "[''binance'', ''bybit'', ''gateio''] = [''binance''] @ ''bybit'' # [''gateio'']"
    by simp
  have b: "list_all (\<lambda>ex. probe_completes (probes interrupted_world ex)) [''binance'']"
    by (simp add: interrupted_world_def scenario_D_def scenario_A_def probe_completes_def)
  have c: "interrupted (probes interrupted_world ''bybit'')"
    by (simp add: interrupted_world_def scenario_B_def interrupted_def)
  show ?thesis
    using a b c main_interrupted_skips_report [OF a b c]
    by (simp add: endpoints_def)
qed

text \<open>
  Claim C9, as stated, at the run in which the request to bybit is interrupted after
  the probe of binance completed: the run does not go on to the report. No line is
  printed, not even for binance, whose result is in the store but not in
  \<^verbatim>\<open>self.results\<close>.
\<close>

theorem interrupted_run_prints_no_report:
  "main interrupted_world =
     ([Log INFO ''Starting latency tests...'',
       Log INFO (CHR 0x0A # replicate 50 (CHR ''='')),
       Log INFO ''Testing BINANCE'',
       Log INFO (replicate 50 (CHR ''='')),
       Log INFO ''Testing REST latency for BINANCE'',
       HttpGet ''https://api.binance.com/api/v3/time'' headers 10,
       Log INFO ''Request: 42.37 ms (Status: 200)'',
       Sleep 1,
       Log INFO (CHR 0x0A # replicate 50 (CHR ''='')),
       Log INFO ''Testing BYBIT'',
       Log INFO (replicate 50 (CHR ''='')),
       Log INFO ''Testing REST latency for BYBIT'',
       HttpGet ''https://api.bybit.com/v5/market/time'' headers 10,
       Log INFO ''Test interrupted by user''],
      \<lparr>store = [result_A], results = []\<rparr>)"
  by (simp add: main_def run_tests_def init_tester_def main_handler_def interrupted_world_def
      scenario_D_def scenario_A_def scenario_B_def result_A_def test_rest_latency_def
      endpoints_def alloc_def dict_set_def upper_def upper_char_def
      latency_A format_A str_nat.simps digit_char_def str_int_def)

section \<open>The persister\<close>

lemma serialize_loop_extends:
  "\<exists>ext. fst (serialize_loop h rs ser) = h @ ext"
proof (induction rs arbitrary: h ser)
  case Nil
  then show ?case by simp
next
  case (Cons kr rs)
  obtain key result where kr: "kr = (key, result)" by (cases kr)
  have step: "serialize_loop h (kr # rs) ser
      = serialize_loop (h @ [serializable (h ! result)]) rs (dict_set ser key (length h))"
    by (simp add: kr alloc_def serializable_def)
  from Cons.IH [of "h @ [serializable (h ! result)]" "dict_set ser key (length h)"]
  obtain ext where
    "fst (serialize_loop (h @ [serializable (h ! result)]) rs (dict_set ser key (length h)))
       = (h @ [serializable (h ! result)]) @ ext" by blast
  then have "fst (serialize_loop h (kr # rs) ser) = h @ (serializable (h ! result) # ext)"
    by (simp add: step)
  then show ?case by blast
qed

lemma serialize_loop_eq:
  assumes "list_all (\<lambda>(k, a). a < length h) rs"
    and "distinct (map fst rs)"
    and "set (map fst ser) \<inter> set (map fst rs) = {}"
  shows "serialize_loop h rs ser
       = (h @ map (\<lambda>(k, a). serializable (h ! a)) rs,
          ser @ zip (map fst rs) [length h ..< length h + length rs])"
  using assms
proof (induction rs arbitrary: h ser)
  case Nil
  then show ?case by simp
next
  case (Cons kr rs)
  obtain key result where kr: "kr = (key, result)" by (cases kr)
  let ?h = "h @ [serializable (h ! result)]"
  let ?ser = "ser @ [(key, length h)]"
  from Cons.prems kr have fresh: "key \<notin> set (map fst ser)" by auto
  have step: "serialize_loop h (kr # rs) ser = serialize_loop ?h rs ?ser"
    using fresh by (simp add: kr alloc_def serializable_def dict_set_def)
  from Cons.prems kr have valid: "list_all (\<lambda>(k, a). a < length h) rs" by simp
  then have p1: "list_all (\<lambda>(k, a). a < length ?h) rs"
    by (auto simp: list_all_iff)
  from Cons.prems kr have p2: "distinct (map fst rs)" by simp
  from Cons.prems kr have p3: "set (map fst ?ser) \<inter> set (map fst rs) = {}" by auto
  have same: "map (\<lambda>(k, a). serializable (?h ! a)) rs = map (\<lambda>(k, a). serializable (h ! a)) rs"
    using valid by (auto simp: list_all_iff nth_append)
  have idx: "[length h ..< length h + length (kr # rs)]
      = length h # [length ?h ..< length ?h + length rs]"
    by (subst upt_rec) simp
  show ?case
    unfolding step Cons.IH [OF p1 p2 p3] same idx
    by (simp add: kr)
qed

lemma zip_fresh_addresses:
  "length ks = length xs \<Longrightarrow>
   map (\<lambda>(k, a). (k, F ((h @ xs) ! a))) (zip ks [length h ..< length h + length xs])
     = map (\<lambda>(k, d). (k, F d)) (zip ks xs)"
  by (rule nth_equalityI) (auto simp: nth_append)

lemma serializable_spec:
  assumes "distinct (map fst d)"
  shows "Dict (map (\<lambda>(f, v). (f, Val v)) (serializable d)) = spec_serialized d"
proof (cases "map_of d ''latency'' = Some (PFloat PosInf)")
  case True
  then have mem: "''latency'' \<in> set (map fst d)"
    using map_of_eq_None_iff [of d "''latency''"] by auto
  have ser: "serializable d
      = map (\<lambda>(k', v'). if k' = ''latency'' then (k', PStr ''inf'') else (k', v')) d"
    using True mem by (simp add: serializable_def dict_set_def)
  have "map (\<lambda>(f, v). (f, Val v)) (serializable d)
      = map (\<lambda>(f, v). (f, Val (if f = ''latency'' \<and> v = PFloat PosInf
                                  then PStr ''inf'' else v))) d"
    unfolding ser map_map
  proof (rule map_cong [OF refl])
    fix x
    assume x: "x \<in> set d"
    obtain f v where fv: "x = (f, v)" by (cases x)
    show "((\<lambda>(f, v). (f, Val v)) \<circ>
            (\<lambda>(k', v'). if k' = ''latency'' then (k', PStr ''inf'') else (k', v'))) x
        = (\<lambda>(f, v). (f, Val (if f = ''latency'' \<and> v = PFloat PosInf
                                 then PStr ''inf'' else v))) x"
    proof (cases "f = ''latency''")
      case True
      with x fv assms have "map_of d ''latency'' = Some v" by simp
      with \<open>map_of d ''latency'' = Some (PFloat PosInf)\<close> have "v = PFloat PosInf" by simp
      with True fv show ?thesis by simp
    next
      case False
      with fv show ?thesis by simp
    qed
  qed
  then show ?thesis by (simp add: spec_serialized_def)
next
  case False
  then have ser: "serializable d = d"
    by (simp add: serializable_def)
  have "map (\<lambda>(f, v). (f, Val v)) d
      = map (\<lambda>(f, v). (f, Val (if f = ''latency'' \<and> v = PFloat PosInf
                                  then PStr ''inf'' else v))) d"
  proof (rule map_cong [OF refl])
    fix x
    assume x: "x \<in> set d"
    obtain f v where fv: "x = (f, v)" by (cases x)
    have "\<not> (f = ''latency'' \<and> v = PFloat PosInf)"
    proof
      assume "f = ''latency'' \<and> v = PFloat PosInf"
      with x fv assms have "map_of d ''latency'' = Some (PFloat PosInf)" by simp
      with False show False by simp
    qed
    with fv show "(\<lambda>(f, v). (f, Val v)) x
        = (\<lambda>(f, v). (f, Val (if f = ''latency'' \<and> v = PFloat PosInf
                                 then PStr ''inf'' else v))) x"
      by auto
  qed
  then show ?thesis by (simp add: ser spec_serialized_def)
qed


lemma snapshot_serialize_loop:
  assumes "wf_tester self"
  shows "snapshot (fst (serialize_loop (store self) (results self) []))
                  (snd (serialize_loop (store self) (results self) []))
       = Dict (map (\<lambda>(k, a). (k, spec_serialized (store self ! a))) (results self))"
proof -
  let ?h = "store self" and ?rs = "results self"
  let ?xs = "map (\<lambda>(k, a). serializable (?h ! a)) ?rs"
  let ?F = "\<lambda>d. Dict (map (\<lambda>(f, v). (f, Val v)) d)"
  from assms have valid: "list_all (\<lambda>(k, a). a < length ?h) ?rs"
    and dist: "distinct (map fst ?rs)"
    and keys: "\<And>k a. (k, a) \<in> set ?rs \<Longrightarrow> distinct (map fst (?h ! a))"
    by (auto simp: wf_tester_def list_all_iff)
  have loop: "serialize_loop ?h ?rs []
      = (?h @ ?xs, zip (map fst ?rs) [length ?h ..< length ?h + length ?xs])"
    using serialize_loop_eq [OF valid dist, of "[]"] by simp
  have "map (\<lambda>(k, a). (k, ?F ((?h @ ?xs) ! a)))
            (zip (map fst ?rs) [length ?h ..< length ?h + length ?xs])
      = map (\<lambda>(k, d). (k, ?F d)) (zip (map fst ?rs) ?xs)"
    by (rule zip_fresh_addresses) simp
  also have "\<dots> = map (\<lambda>(k, a). (k, ?F (serializable (?h ! a)))) ?rs"
    by (simp add: zip_map_map zip_same_conv_map case_prod_unfold)
  also have "\<dots> = map (\<lambda>(k, a). (k, spec_serialized (?h ! a))) ?rs"
    by (rule map_cong [OF refl]) (auto simp: serializable_spec keys)
  finally show ?thesis
    unfolding loop by (simp add: snapshot_def)
qed

text \<open>
  Claim C2. For a non-empty result set whose references are valid, when \<^verbatim>\<open>open\<close> and
  \<^verbatim>\<open>json.dump\<close> succeed: the save opens the file and hands \<^verbatim>\<open>json.dump\<close>, with
  \<^verbatim>\<open>indent=2\<close>, one dictionary with exactly the keys \<^verbatim>\<open>timestamp\<close> (the
  \<^verbatim>\<open>isoformat\<close> of \<^verbatim>\<open>datetime.now()\<close>) and \<^verbatim>\<open>results\<close>; under \<^verbatim>\<open>results\<close> every
  exchange maps to its result, in which a \<^verbatim>\<open>latency\<close> equal to the infinity is the
  string \<^verbatim>\<open>"inf"\<close> and every other field is unchanged. The text that \<^verbatim>\<open>json.dump\<close>
  writes is the library's; the model records the object and the indentation it is given.
\<close>

theorem save_writes_json_object:
  assumes "results self \<noteq> []" and "wf_tester self"
    and "open_raises env = None" and "dump_raises env = None"
  shows "\<exists>self'. save_results_to_file env filename self =
           ([Open (case filename of
                     None \<Rightarrow> ''latency_test_results_'' @ now_stamp env @ ''.json''
                   | Some f \<Rightarrow> f),
             JsonDump (Dict [(''timestamp'', Val (PStr (now_iso env))),
                             (''results'',
                              Dict (map (\<lambda>(k, a). (k, spec_serialized (store self ! a)))
                                        (results self)))]) 2,
             Log INFO (''Results saved to '' @
                   (case filename of
                      None \<Rightarrow> ''latency_test_results_'' @ now_stamp env @ ''.json''
                    | Some f \<Rightarrow> f))],
            self', Inr ())"
  using assms(1,3,4) snapshot_serialize_loop [OF assms(2)]
  by (simp add: save_results_to_file_def Let_def case_prod_unfold)

theorem save_writes_json_object_witness:
  "results tester_D \<noteq> [] \<and> wf_tester tester_D
   \<and> open_raises save_ok = None \<and> dump_raises save_ok = None
   \<and> (\<exists>self'. save_results_to_file save_ok None tester_D =
         ([Open ''latency_test_results_20240101_120000.json'',
           JsonDump
             (Dict [(''timestamp'', Val (PStr ''2024-01-01T12:00:03.000001'')),
                    (''results'',
                     Dict [(''binance'',
                            Dict [(''exchange'', Val (PStr ''binance'')),
                                  (''test_type'', Val (PStr ''rest'')),
                                  (''latency'', Val (PFloat (Finite (347125 / 8192)))),
                                  (''status_code'', Val (PInt 200)),
                                  (''success'', Val (PBool True))]),
                           (''bybit'',
                            Dict [(''exchange'', Val (PStr ''bybit'')),
                                  (''test_type'', Val (PStr ''rest'')),
                                  (''latency'', Val (PStr ''inf'')),
                                  (''status_code'', Val (PInt 503)),
                                  (''success'', Val (PBool False))]),
                           (''gateio'',
                            Dict [(''exchange'', Val (PStr ''gateio'')),
                                  (''test_type'', Val (PStr ''rest'')),
                                  (''latency'', Val (PStr ''inf'')),
                                  (''status_code'', Val PNone),
                                  (''success'', Val (PBool False)),
                                  (''error'', Val (PStr ''timed out''))])])]) 2,
           Log INFO ''Results saved to latency_test_results_20240101_120000.json''],
          self', Inr ()))"
proof -
  have a: "results tester_D \<noteq> []" by (simp add: tester_D_def)
  have b: "wf_tester tester_D"
    by (simp add: wf_tester_def tester_D_def result_A_def result_B_def result_C_def)
  have c: "open_raises save_ok = None" by (simp add: save_ok_def)
  have d: "dump_raises save_ok = None" by (simp add: save_ok_def)
  show ?thesis
    using a b c d save_writes_json_object [OF a b c d, of None]
    by (simp add: spec_serialized_def tester_D_def result_A_def result_B_def result_C_def
        save_ok_def)
qed

lemma save_frame:
  assumes "save_results_to_file env filename self = (evs, self', r)"
  shows "results self' = results self \<and> (\<exists>ext. store self' = store self @ ext)"
proof (cases "results self = []")
  case True
  with assms show ?thesis by (auto simp: save_results_to_file_def)
next
  case False
  from serialize_loop_extends [of "store self" "results self" "[]"] obtain ext where
    "fst (serialize_loop (store self) (results self) []) = store self @ ext" by blast
  with assms False show ?thesis
    by (auto simp: save_results_to_file_def Let_def case_prod_unfold
        split: option.splits prod.splits)
qed

lemma results_view_frame:
  assumes "wf_tester self" and "results self' = results self"
    and "store self' = store self @ ext"
  shows "results_view self' = results_view self"
  using assms
  by (auto simp: results_view_def wf_tester_def list_all_iff nth_append)

text \<open>
  Claim C10. A save of a non-empty result set leaves \<^verbatim>\<open>self.results\<close> as it was: the
  same keys and references, every dictionary that existed before unchanged in the store
  (the substitution writes to the copies, which are new objects), so a latency that was
  the infinity is still the number and not the string.
\<close>

theorem save_leaves_results_unchanged:
  assumes "save_results_to_file env filename self = (evs, self', r)"
    and "results self \<noteq> []" and "wf_tester self"
  shows "results self' = results self
       \<and> take (length (store self)) (store self') = store self
       \<and> results_view self' = results_view self
       \<and> list_all (\<lambda>(k, a). map_of (store self ! a) ''latency'' = Some (PFloat PosInf)
                          \<longrightarrow> map_of (store self' ! a) ''latency'' = Some (PFloat PosInf))
            (results self')"
proof -
  from save_frame [OF assms(1)] obtain ext where
    fr: "results self' = results self" "store self' = store self @ ext" by blast
  have "list_all (\<lambda>(k, a). store self' ! a = store self ! a) (results self)"
    using assms(3) fr by (auto simp: wf_tester_def list_all_iff nth_append)
  then have "list_all (\<lambda>(k, a). map_of (store self ! a) ''latency'' = Some (PFloat PosInf)
                          \<longrightarrow> map_of (store self' ! a) ''latency'' = Some (PFloat PosInf))
            (results self')"
    using fr by (auto simp: list_all_iff)
  with results_view_frame [OF assms(3) fr] fr show ?thesis by simp
qed

lemma serializable_results:
  "serializable result_A = result_A"
  "serializable result_B =
     [(''exchange'', PStr ''bybit''), (''test_type'', PStr ''rest''),
      (''latency'', PStr ''inf''),
      (''status_code'', PInt 503), (''success'', PBool False)]"
  "serializable result_C =
     [(''exchange'', PStr ''gateio''), (''test_type'', PStr ''rest''),
      (''latency'', PStr ''inf''), (''status_code'', PNone),
      (''success'', PBool False), (''error'', PStr ''timed out'')]"
  by (simp_all add: serializable_def dict_set_def result_A_def result_B_def result_C_def)

lemma tester_D_save_store:
  "fst (snd (save_results_to_file save_ok None tester_D)) = tester_D_saved"
proof -
  have valid: "list_all (\<lambda>(k, a). a < length (store tester_D)) (results tester_D)"
    and dist: "distinct (map fst (results tester_D))"
    by (simp_all add: tester_D_def)
  have "fst (serialize_loop (store tester_D) (results tester_D) [])
      = store tester_D @ map (\<lambda>(k, a). serializable (store tester_D ! a)) (results tester_D)"
    using serialize_loop_eq [OF valid dist, of "[]"] by simp
  also have "\<dots> = store tester_D_saved"
    by (simp add: tester_D_def tester_D_saved_def serializable_results)
  finally have st: "fst (serialize_loop (store tester_D) (results tester_D) []) = store tester_D_saved" .
  have "results tester_D \<noteq> []" by (simp add: tester_D_def)
  then have "fst (snd (save_results_to_file save_ok None tester_D))
      = tester_D\<lparr>store := store tester_D_saved\<rparr>"
    by (simp add: save_results_to_file_def Let_def case_prod_unfold save_ok_def st)
  then show ?thesis
    by (simp add: tester_D_def tester_D_saved_def)
qed

theorem save_leaves_results_unchanged_witness:
  "results tester_D \<noteq> [] \<and> wf_tester tester_D
   \<and> fst (snd (save_results_to_file save_ok None tester_D)) = tester_D_saved
   \<and> results_view tester_D_saved
       = [(''binance'', result_A), (''bybit'', result_B), (''gateio'', result_C)]
   \<and> map_of result_B ''latency'' = Some (PFloat PosInf)
   \<and> map_of result_C ''latency'' = Some (PFloat PosInf)"
proof -
  obtain evs r where run: "save_results_to_file save_ok None tester_D
      = (evs, fst (snd (save_results_to_file save_ok None tester_D)), r)"
    by (cases "save_results_to_file save_ok None tester_D") auto
  have a: "results tester_D \<noteq> []" by (simp add: tester_D_def)
  have b: "wf_tester tester_D"
    by (simp add: wf_tester_def tester_D_def result_A_def result_B_def result_C_def)
  note saved = tester_D_save_store
  have v: "results_view tester_D
      = [(''binance'', result_A), (''bybit'', result_B), (''gateio'', result_C)]"
    by (simp add: results_view_def tester_D_def)
  have lat: "map_of result_B ''latency'' = Some (PFloat PosInf)"
    "map_of result_C ''latency'' = Some (PFloat PosInf)"
    by (simp_all add: result_B_def result_C_def)
  from save_leaves_results_unchanged [OF run a b]
  show ?thesis
    using a b saved v lat by simp
qed



end
